theory Spec2Isabelle
  imports Complex_Main "HOL-Library.Char_ord" "HOL-Library.List_Lexorder" "HOL-Library.Multiset"
begin

section \<open>Data model\<close>

text \<open>
  A catalog entry as \<^verbatim>\<open>sources.json\<close> lists it and as \<^verbatim>\<open>pickSources\<close> returns it:
  \<^verbatim>\<open>{id, name, side, x, y}\<close>. The feed handler reads \<^verbatim>\<open>src.id\<close>, \<^verbatim>\<open>src.name\<close> and
  \<^verbatim>\<open>src.side\<close>.
\<close>

record source =
  id_src :: string
  name_src :: string
  side_src :: string
  x_src :: real
  y_src :: real

text \<open>
  An article as the news provider returns it. The nested \<^verbatim>\<open>source\<close> object may be absent
  or null (\<open>None\<close>), and its \<^verbatim>\<open>id\<close> may be null as well. The remaining fields are only
  copied by the handler; \<open>None\<close> stands for a null or missing value.
\<close>

record article_source =
  id_as :: "string option"
  name_as :: "string option"

record article =
  source :: "article_source option"
  title :: "string option"
  url :: "string option"
  urlToImage :: "string option"
  publishedAt :: "string option"

text \<open>The object pushed onto \<^verbatim>\<open>cards\<close>, field by field.\<close>

record card =
  articleId :: "string option"
  title_card :: "string option"
  sourceId :: string
  sourceName :: string
  imageUrl :: "string option"
  url_card :: "string option"
  publishedAt_card :: "string option"
  side :: string

text \<open>
  What the handler can catch: the \<^verbatim>\<open>TypeError\<close> of reading a field of \<^verbatim>\<open>undefined\<close>, or
  an exception thrown by a collaborator, with its message.
\<close>

datatype error = TypeError | Thrown string

section \<open>Card assembly (the loop of the feed handler)\<close>

text \<open>
  \<^verbatim>\<open>a => a.source && a.source.id === src.id\<close>: a missing \<^verbatim>\<open>source\<close> is falsy, and a null
  \<^verbatim>\<open>id\<close> is never strictly equal to the string \<^verbatim>\<open>src.id\<close>.
\<close>

definition matches :: "source \<Rightarrow> article \<Rightarrow> bool" where
  "matches src a =
     (case source a of
        None \<Rightarrow> False
      | Some so \<Rightarrow> id_as so = Some (id_src src))"

text \<open>
  \<^verbatim>\<open>%\<close> on two array lengths: the remainder, or NaN (\<open>None\<close>) when the divisor is zero.
\<close>

definition js_mod :: "nat \<Rightarrow> nat \<Rightarrow> nat option" where
  "js_mod a b = (if b = 0 then None else Some (a mod b))"

text \<open>
  \<^verbatim>\<open>articles[i]\<close>: the element, or \<^verbatim>\<open>undefined\<close> (\<open>None\<close>) when the index is NaN or
  not below the length.
\<close>

definition js_index :: "'a list \<Rightarrow> nat option \<Rightarrow> 'a option" where
  "js_index xs i =
     (case i of
        None \<Rightarrow> None
      | Some n \<Rightarrow> if n < length xs then Some (xs ! n) else None)"

text \<open>The object literal of the exact-match branch.\<close>

definition exactCard :: "article \<Rightarrow> source \<Rightarrow> card" where
  "exactCard art src =
     \<lparr> articleId = url art,
       title_card = title art,
       sourceId = id_src src,
       sourceName = name_src src,
       imageUrl = urlToImage art,
       url_card = url art,
       publishedAt_card = publishedAt art,
       side = side_src src \<rparr>"

text \<open>The object literal of the fallback branch.\<close>

definition fallbackCard :: "article \<Rightarrow> source \<Rightarrow> card" where
  "fallbackCard fallbackArticle src =
     \<lparr> articleId = url fallbackArticle,
       title_card = title fallbackArticle,
       sourceId = id_src src,
       sourceName = name_src src,
       imageUrl = urlToImage fallbackArticle,
       url_card = url fallbackArticle,
       publishedAt_card = publishedAt fallbackArticle,
       side = side_src src \<rparr>"

text \<open>
  One iteration of \<^verbatim>\<open>for (const src of sources)\<close>, from the cards pushed so far to the
  cards after it. Reading a field of \<^verbatim>\<open>undefined\<close> throws a \<^verbatim>\<open>TypeError\<close>, which is what
  \<^verbatim>\<open>fallbackArticle.url\<close> would do if the indexing gave \<^verbatim>\<open>undefined\<close>.
\<close>

definition slot :: "article list \<Rightarrow> card list \<Rightarrow> source \<Rightarrow> error + card list" where
  "slot articles cards src =
     (case List.find (matches src) articles of
        Some art \<Rightarrow> Inr (cards @ [exactCard art src])
      | None \<Rightarrow>
          if length articles > 0 then
            (case js_index articles (js_mod (length cards) (length articles)) of
               None \<Rightarrow> Inl TypeError
             | Some fallbackArticle \<Rightarrow> Inr (cards @ [fallbackCard fallbackArticle src]))
          else Inr cards)"

text \<open>The loop over the selected sources; an exception leaves it at once.\<close>

fun loop :: "article list \<Rightarrow> card list \<Rightarrow> source list \<Rightarrow> error + card list" where
  "loop articles cards [] = Inr cards"
| "loop articles cards (src # rest) =
     (case slot articles cards src of
        Inl e \<Rightarrow> Inl e
      | Inr cards' \<Rightarrow> loop articles cards' rest)"

text \<open>\<^verbatim>\<open>const cards = []\<close> followed by the loop.\<close>

definition assembleCards :: "source list \<Rightarrow> article list \<Rightarrow> error + card list" where
  "assembleCards sources articles = loop articles [] sources"

section \<open>The feed request handler\<close>

text \<open>
  A JavaScript number as far as the handler tells them apart: \<^verbatim>\<open>isNaN\<close> is true of
  \<open>NaN\<close> only.
\<close>

datatype number = NaN | Infinity | NegInfinity | Finite real

definition isNaN :: "number \<Rightarrow> bool" where
  "isNaN n = (case n of NaN \<Rightarrow> True | _ \<Rightarrow> False)"

text \<open>
  \<^verbatim>\<open>parseFloat(req.query.x)\<close>. A missing query parameter is \<^verbatim>\<open>undefined\<close> (\<open>None\<close>), which
  the built-in turns into the text \<^verbatim>\<open>undefined\<close> and so into NaN; how it reads the text of
  a parameter that is present is the built-in's business and is taken as \<open>parseString\<close>.
\<close>

definition parseFloat :: "(string \<Rightarrow> number) \<Rightarrow> string option \<Rightarrow> number" where
  "parseFloat parseString q =
     (case q of
        None \<Rightarrow> NaN
      | Some s \<Rightarrow> parseString s)"

text \<open>
  The body of a response: \<^verbatim>\<open>{ error }\<close>, the \<^verbatim>\<open>{ error, details }\<close> of the catch block,
  the cards, or whatever \<^verbatim>\<open>JSON.parse\<close> made of the cached text.
\<close>

datatype 'j body =
    ErrorBody string
  | FailureBody string error
  | CardsBody "card list"
  | ParsedBody 'j

datatype 'j response = Response nat "'j body"

text \<open>What the handler did on the way to its response, in order.\<close>

datatype step =
    GetCache string
  | PickSources number number
  | GetArticlesBySources "string list"
  | AssembleCards "source list" "article list"
  | SetCache string "card list" nat

text \<open>
  The collaborators of the handler (imported from \<^verbatim>\<open>feed.js\<close>, \<^verbatim>\<open>newsapi.js\<close> and
  \<^verbatim>\<open>cache.js\<close>) and the built-ins it calls; each of them may throw. \<open>setCache\<close> is given
  the cards that \<^verbatim>\<open>JSON.stringify\<close> serialises.
\<close>

record 'j env =
  parseString :: "string \<Rightarrow> number"
  toFixed3 :: "number \<Rightarrow> string"
  getCache :: "string \<Rightarrow> error + string option"
  jsonParse :: "string \<Rightarrow> error + 'j"
  pickSources :: "number \<Rightarrow> number \<Rightarrow> error + source list"
  getArticlesBySources :: "string list \<Rightarrow> error + article list"
  setCache :: "string \<Rightarrow> card list \<Rightarrow> nat \<Rightarrow> error + unit"

text \<open>The catch block: status 500 with the message of what was thrown.\<close>

definition failed :: "error \<Rightarrow> 'j response" where
  "failed e = Response 500 (FailureBody ''Failed to fetch articles'' e)"

text \<open>
  The handler after a cache miss: select the sources, fetch their articles, assemble the
  cards, cache them for 1800 seconds when there are any, and answer with them. \<open>steps\<close>
  are the steps taken before. The \<^verbatim>\<open>debug\<close> calls only log and are left out, as is the
  \<^verbatim>\<open>stack\<close> field of the catch block's answer.
\<close>

definition freshFeed ::
  "'j env \<Rightarrow> number \<Rightarrow> number \<Rightarrow> string \<Rightarrow> step list \<Rightarrow> 'j response \<times> step list" where
  "freshFeed env x y cacheKey steps =
     (case pickSources env x y of
        Inl e \<Rightarrow> (failed e, steps @ [PickSources x y])
      | Inr sources \<Rightarrow>
          if length sources = 0 then (Response 200 (CardsBody []), steps @ [PickSources x y])
          else
            (case getArticlesBySources env (map id_src sources) of
               Inl e \<Rightarrow>
                 (failed e,
                  steps @ [PickSources x y, GetArticlesBySources (map id_src sources)])
             | Inr articles \<Rightarrow>
                 (case assembleCards sources articles of
                    Inl e \<Rightarrow>
                      (failed e,
                       steps @ [PickSources x y, GetArticlesBySources (map id_src sources),
                               AssembleCards sources articles])
                  | Inr cards \<Rightarrow>
                      if length cards > 0 then
                        (case setCache env cacheKey cards 1800 of
                           Inl e \<Rightarrow>
                             (failed e,
                              steps @ [PickSources x y,
                                      GetArticlesBySources (map id_src sources),
                                      AssembleCards sources articles,
                                      SetCache cacheKey cards 1800])
                         | Inr _ \<Rightarrow>
                             (Response 200 (CardsBody cards),
                              steps @ [PickSources x y,
                                      GetArticlesBySources (map id_src sources),
                                      AssembleCards sources articles,
                                      SetCache cacheKey cards 1800]))
                      else
                        (Response 200 (CardsBody cards),
                         steps @ [PickSources x y, GetArticlesBySources (map id_src sources),
                                 AssembleCards sources articles]))))"

text \<open>
  \<^verbatim>\<open>app.get('/feed', ...)\<close> on the query parameters \<^verbatim>\<open>x\<close> and \<^verbatim>\<open>y\<close>: the response and the
  steps taken. A cached text is used when it is truthy, that is, present and not empty.
\<close>

definition feed :: "'j env \<Rightarrow> string option \<Rightarrow> string option \<Rightarrow> 'j response \<times> step list" where
  "feed env qx qy =
     (let x = parseFloat (parseString env) qx;
          y = parseFloat (parseString env) qy
      in if isNaN x \<or> isNaN y then (Response 400 (ErrorBody ''x and y required''), [])
         else
           (let cacheKey = ''feed:'' @ toFixed3 env x @ '':'' @ toFixed3 env y
            in case getCache env cacheKey of
                 Inl e \<Rightarrow> (failed e, [GetCache cacheKey])
               | Inr None \<Rightarrow> freshFeed env x y cacheKey [GetCache cacheKey]
               | Inr (Some cached) \<Rightarrow>
                   if cached = [] then freshFeed env x y cacheKey [GetCache cacheKey]
                   else
                     (case jsonParse env cached of
                        Inl e \<Rightarrow> (failed e, [GetCache cacheKey])
                      | Inr parsed \<Rightarrow> (Response 200 (ParsedBody parsed), [GetCache cacheKey]))))"

section \<open>Source selection\<close>

text \<open>
  Modelled from the spec: \<^verbatim>\<open>pickSources\<close> of \<^verbatim>\<open>feed.js\<close> and the catalog
  \<^verbatim>\<open>sources.json\<close> are not among the sources at hand. The spec has \<open>selectSources\<close> return
  the sources of the catalog closest to the query coordinate under a distance metric, ties
  broken by ascending identifier, cut at the number of slots of the feed, which is 4. The
  metric is not named, so it is the parameter \<open>metric\<close>; the catalog is passed explicitly.
\<close>

definition slotCount :: nat where
  "slotCount = 4"

definition closer ::
  "(real \<times> real \<Rightarrow> real \<times> real \<Rightarrow> real) \<Rightarrow> real \<Rightarrow> real \<Rightarrow> source \<Rightarrow> source \<Rightarrow> bool" where
  "closer metric x y a b =
     (let da = metric (x, y) (x_src a, y_src a);
          db = metric (x, y) (x_src b, y_src b)
      in da < db \<or> (da = db \<and> id_src a \<le> id_src b))"

fun insertBy :: "('a \<Rightarrow> 'a \<Rightarrow> bool) \<Rightarrow> 'a \<Rightarrow> 'a list \<Rightarrow> 'a list" where
  "insertBy le a [] = [a]"
| "insertBy le a (b # bs) = (if le a b then a # b # bs else b # insertBy le a bs)"

fun sortBy :: "('a \<Rightarrow> 'a \<Rightarrow> bool) \<Rightarrow> 'a list \<Rightarrow> 'a list" where
  "sortBy le [] = []"
| "sortBy le (a # as) = insertBy le a (sortBy le as)"

definition selectSources ::
  "(real \<times> real \<Rightarrow> real \<times> real \<Rightarrow> real) \<Rightarrow> source list \<Rightarrow> real \<Rightarrow> real \<Rightarrow> source list" where
  "selectSources metric catalog x y = take slotCount (sortBy (closer metric x y) catalog)"

text \<open>The squared Euclidean distance, one metric the selector can be run with.\<close>

definition euclid2 :: "real \<times> real \<Rightarrow> real \<times> real \<Rightarrow> real" where
  "euclid2 p q = (fst p - fst q)\<^sup>2 + (snd p - snd q)\<^sup>2"

section \<open>Example data\<close>

text \<open>
  The scenario of the spec: a catalog of two sources, \<open>A\<close> at the origin and \<open>B\<close> at
  \<open>(10, 10)\<close>, and articles of \<open>B\<close>; one article without a source besides.
\<close>

definition srcA :: source where
  "srcA = \<lparr> id_src = ''A'', name_src = ''Alpha'', side_src = ''LEFT'', x_src = 0, y_src = 0 \<rparr>"

definition srcB :: source where
  "srcB = \<lparr> id_src = ''B'', name_src = ''Beta'', side_src = ''RIGHT'', x_src = 10, y_src = 10 \<rparr>"

definition artB1 :: article where
  "artB1 = \<lparr> source = Some \<lparr> id_as = Some ''B'', name_as = Some ''Beta'' \<rparr>,
             title = Some ''first'', url = Some ''http://b/1'', urlToImage = None,
             publishedAt = Some ''2024-01-01'' \<rparr>"

definition artB2 :: article where
  "artB2 = \<lparr> source = Some \<lparr> id_as = Some ''B'', name_as = Some ''Beta'' \<rparr>,
             title = Some ''second'', url = Some ''http://b/2'', urlToImage = None,
             publishedAt = Some ''2024-01-02'' \<rparr>"

definition artN :: article where
  "artN = \<lparr> source = None,
            title = Some ''orphan'', url = Some ''http://n/1'', urlToImage = None,
            publishedAt = None \<rparr>"

text \<open>
  Collaborators for a run of the handler: a parser that reads \<^verbatim>\<open>1\<close> only, an empty cache,
  a selector that picks \<open>A\<close> and \<open>B\<close>, and a provider with one article of \<open>B\<close>.
\<close>

definition env0 :: "string env" where
  "env0 =
     \<lparr> parseString = (\<lambda>s. if s = ''1'' then Finite 1 else NaN),
       toFixed3 = (\<lambda>n. ''1.000''),
       getCache = (\<lambda>k. Inr None),
       jsonParse = (\<lambda>s. Inr s),
       pickSources = (\<lambda>x y. Inr [srcA, srcB]),
       getArticlesBySources = (\<lambda>ids. Inr [artB1]),
       setCache = (\<lambda>k cards ttl. Inr ()) \<rparr>"

section \<open>Auxiliary definitions for the proofs\<close>

text \<open>The card a slot pushes when there is at least one article.\<close>

definition slotCard :: "article list \<Rightarrow> nat \<Rightarrow> source \<Rightarrow> card" where
  "slotCard articles n src =
     (case List.find (matches src) articles of
        Some art \<Rightarrow> exactCard art src
      | None \<Rightarrow> fallbackCard (articles ! (n mod length articles)) src)"

text \<open>
  With at least one article every slot pushes exactly one card: the cards after the loop
  are the cards before it followed by one card per source, the \<open>k\<close>-th of them built at
  emission count \<open>length cards + k\<close>.
\<close>

fun emitted :: "article list \<Rightarrow> nat \<Rightarrow> source list \<Rightarrow> card list" where
  "emitted articles n [] = []"
| "emitted articles n (src # rest) = slotCard articles n src # emitted articles (Suc n) rest"

section \<open>Properties of one slot\<close>

lemma js_index_mod:
  "articles \<noteq> [] \<Longrightarrow>
   js_index articles (js_mod n (length articles)) = Some (articles ! (n mod length articles))"
  by (simp add: js_index_def js_mod_def)

lemma slot_exact:
  "List.find (matches src) articles = Some art \<Longrightarrow>
   slot articles cards src = Inr (cards @ [exactCard art src])"
  by (simp add: slot_def)

lemma slot_fallback:
  "List.find (matches src) articles = None \<Longrightarrow> articles \<noteq> [] \<Longrightarrow>
   slot articles cards src =
     Inr (cards @ [fallbackCard (articles ! (length cards mod length articles)) src])"
  by (simp add: slot_def js_index_mod)

lemma slot_no_articles: "slot [] cards src = Inr cards"
  by (simp add: slot_def)

lemma slot_nonempty:
  "articles \<noteq> [] \<Longrightarrow>
   slot articles cards src = Inr (cards @ [slotCard articles (length cards) src])"
  by (cases "List.find (matches src) articles")
     (simp_all add: slot_exact slot_fallback slotCard_def)

lemma slotCard_ident:
  "sourceId (slotCard articles n src) = id_src src \<and>
   sourceName (slotCard articles n src) = name_src src \<and>
   side (slotCard articles n src) = side_src src"
  by (simp add: slotCard_def exactCard_def fallbackCard_def split: option.splits)

lemma slotCard_url:
  "articleId (slotCard articles n src) = url_card (slotCard articles n src)"
  by (simp add: slotCard_def exactCard_def fallbackCard_def split: option.splits)

section \<open>Properties of the loop\<close>

lemma loop_no_articles: "loop [] cards sources = Inr cards"
  by (induction sources arbitrary: cards) (simp_all add: slot_no_articles)

lemma loop_nonempty:
  "articles \<noteq> [] \<Longrightarrow>
   loop articles cards sources = Inr (cards @ emitted articles (length cards) sources)"
  by (induction sources arbitrary: cards) (simp_all add: slot_nonempty)

lemma length_emitted: "length (emitted articles n sources) = length sources"
  by (induction sources arbitrary: n) simp_all

lemma emitted_append:
  "emitted articles n (xs @ ys) = emitted articles n xs @ emitted articles (n + length xs) ys"
  by (induction xs arbitrary: n) simp_all

lemma emitted_nth:
  "i < length sources \<Longrightarrow> emitted articles n sources ! i = slotCard articles (n + i) (sources ! i)"
proof (induction sources arbitrary: n i)
  case Nil
  then show ?case by simp
next
  case (Cons s rest)
  show ?case
  proof (cases i)
    case 0
    then show ?thesis by simp
  next
    case (Suc j)
    with Cons.prems have "j < length rest" by simp
    from Cons.IH [OF this, of "Suc n"] Suc show ?thesis by simp
  qed
qed

lemma emitted_url:
  "c \<in> set (emitted articles n sources) \<Longrightarrow> articleId c = url_card c"
  by (induction sources arbitrary: n) (auto simp: slotCard_url)

lemma assembleCards_cases:
  "assembleCards sources articles =
     Inr (if articles = [] then [] else emitted articles 0 sources)"
  by (simp add: assembleCards_def loop_no_articles loop_nonempty)

section \<open>Further properties of the assembly\<close>

lemma emitted_ident:
  "map (\<lambda>c. (sourceId c, sourceName c, side c)) (emitted articles n sources) =
   map (\<lambda>s. (id_src s, name_src s, side_src s)) sources"
  by (induction sources arbitrary: n) (simp_all add: slotCard_ident)

lemma emitted_sourceId: "map sourceId (emitted articles n sources) = map id_src sources"
  by (induction sources arbitrary: n) (simp_all add: slotCard_ident)

lemma find_first:
  "\<forall>a \<in> set skipped. \<not> P a \<Longrightarrow> P art \<Longrightarrow> List.find P (skipped @ art # others) = Some art"
  by (induction skipped) simp_all

lemma find_absent_source: "source a = None \<Longrightarrow> List.find (matches src) articles \<noteq> Some a"
  by (auto simp: find_Some_iff matches_def)

lemma slot_total:
  "\<exists>cards'. slot articles cards src = Inr cards' \<and>
            (cards' = cards \<or> (\<exists>c. cards' = cards @ [c]))"
  by (cases "articles = []") (simp_all add: slot_no_articles slot_nonempty)

section \<open>Properties of the feed handler\<close>

lemma parseFloat_missing: "parseFloat p None = NaN"
  by (simp add: parseFloat_def)

lemma feed_rejects:
  "isNaN (parseFloat (parseString env) qx) \<or> isNaN (parseFloat (parseString env) qy) \<Longrightarrow>
   feed env qx qy = (Response 400 (ErrorBody ''x and y required''), [])"
  by (simp add: feed_def Let_def)

lemma freshFeed_PickSources:
  "PickSources a b \<in> set (snd (freshFeed env x y cacheKey steps)) \<Longrightarrow>
   PickSources a b \<in> set steps \<or> (a = x \<and> b = y)"
  by (auto simp: freshFeed_def split: sum.splits if_splits)

lemma feed_PickSources:
  assumes "PickSources a b \<in> set (snd (feed env qx qy))"
  shows "a = parseFloat (parseString env) qx \<and> b = parseFloat (parseString env) qy \<and>
         \<not> isNaN a \<and> \<not> isNaN b"
proof (cases "isNaN (parseFloat (parseString env) qx) \<or> isNaN (parseFloat (parseString env) qy)")
  case True
  from feed_rejects [OF this] assms show ?thesis by simp
next
  case False
  with assms show ?thesis
    by (auto simp: feed_def Let_def split: sum.splits option.splits if_splits
             dest!: freshFeed_PickSources)
qed

lemma feed_env0: "feed env0 (Some ''1'') (Some ''1'') =
     (Response 200 (CardsBody [fallbackCard artB1 srcA, exactCard artB1 srcB]),
      [GetCache ''feed:1.000:1.000'', PickSources (Finite 1) (Finite 1),
       GetArticlesBySources [''A'', ''B''], AssembleCards [srcA, srcB] [artB1],
       SetCache ''feed:1.000:1.000'' [fallbackCard artB1 srcA, exactCard artB1 srcB] 1800])"
proof -
  have run: "assembleCards [srcA, srcB] [artB1] =
      Inr [fallbackCard artB1 srcA, exactCard artB1 srcB]"
    by (simp add: assembleCards_def slot_def matches_def js_index_def js_mod_def
          srcA_def srcB_def artB1_def)
  have ids: "id_src srcA = ''A''" "id_src srcB = ''B''"
    by (simp_all add: srcA_def srcB_def)
  show ?thesis
    by (simp add: feed_def freshFeed_def env0_def parseFloat_def isNaN_def Let_def run ids)
qed

section \<open>Properties of the source selection\<close>

lemma mset_insertBy: "mset (insertBy le a bs) = add_mset a (mset bs)"
  by (induction bs) simp_all

lemma mset_sortBy: "mset (sortBy le as) = mset as"
  by (induction as) (simp_all add: mset_insertBy)

lemma set_sortBy: "set (sortBy le as) = set as"
  using mset_sortBy [of le as] by (metis set_mset_mset)

lemma length_sortBy: "length (sortBy le as) = length as"
  using mset_sortBy [of le as] by (metis size_mset)

lemma distinct_map_sortBy:
  "distinct (map f as) \<Longrightarrow> distinct (map f (sortBy le as))"
proof -
  assume d: "distinct (map f as)"
  have m: "mset (map f (sortBy le as)) = mset (map f as)"
    by (simp only: mset_map mset_sortBy)
  from mset_eq_imp_distinct_iff [OF m] d show ?thesis
    by blast
qed

lemma distinct_map_take: "distinct (map f xs) \<Longrightarrow> distinct (map f (take n xs))"
  by (simp only: take_map [symmetric] distinct_take)

lemma select_AB: "selectSources euclid2 [srcB, srcA] 1 1 = [srcA, srcB]"
  by (simp add: selectSources_def slotCount_def closer_def euclid2_def srcA_def srcB_def Let_def)

section \<open>Claims\<close>

text \<open>
  C1: every card the assembly emits, from an exact match or from a fallback article, has
  its \<open>sourceId\<close>, \<open>sourceName\<close> and \<open>side\<close> copied from the source of its slot and
  never from the article: the three fields of the cards are those of the sources, in
  order, whatever the articles are (none at all when there is no article). So no card has
  a \<open>sourceId\<close> that is not the id of one of the sources.
\<close>

theorem C1_identity_from_source:
  "\<exists>cards. assembleCards sources articles = Inr cards \<and>
     map (\<lambda>c. (sourceId c, sourceName c, side c)) cards =
       (if articles = [] then [] else map (\<lambda>s. (id_src s, name_src s, side_src s)) sources) \<and>
     (\<forall>c \<in> set cards. sourceId c \<in> id_src ` set sources)"
proof (cases "articles = []")
  case True
  then show ?thesis by (simp add: assembleCards_cases)
next
  case False
  have "set (map sourceId (emitted articles 0 sources)) = set (map id_src sources)"
    by (simp only: emitted_sourceId)
  then have "\<forall>c \<in> set (emitted articles 0 sources). sourceId c \<in> id_src ` set sources"
    by auto
  with False show ?thesis
    by (simp add: assembleCards_cases emitted_ident)
qed

theorem C1_witness:
  "assembleCards [srcA, srcB] [artB1] =
     Inr [fallbackCard artB1 srcA, exactCard artB1 srcB] \<and>
   map sourceId [fallbackCard artB1 srcA, exactCard artB1 srcB] = [''A'', ''B''] \<and>
   sourceId (fallbackCard artB1 srcA) \<in> id_src ` set [srcA, srcB] \<and>
   sourceId (exactCard artB1 srcB) \<in> id_src ` set [srcA, srcB]"
proof -
  have run: "assembleCards [srcA, srcB] [artB1] =
      Inr [fallbackCard artB1 srcA, exactCard artB1 srcB]"
    by (simp add: assembleCards_def slot_def matches_def js_index_def js_mod_def
          srcA_def srcB_def artB1_def)
  have ids: "map sourceId [fallbackCard artB1 srcA, exactCard artB1 srcB] = [''A'', ''B'']"
    by (simp add: fallbackCard_def exactCard_def srcA_def srcB_def)
  from C1_identity_from_source [of "[srcA, srcB]" "[artB1]"] run ids
  show ?thesis by simp
qed


text \<open>
  C2: with at least one article, a source that no article matches gets the article at
  index (number of cards emitted so far) mod (number of articles). A slot computes the
  index from the cards it is handed, whatever they are, and in the assembly these are the
  cards emitted for the sources before it. The card is written out: url (twice), title,
  image URL and publication time of that article, identity of the source.
\<close>

theorem C2_fallback_index:
  assumes "articles \<noteq> []"
    and "List.find (matches src) articles = None"
    and "assembleCards pre articles = Inr cards"
  shows "slot articles cs src =
           Inr (cs @
             [\<lparr> articleId = url (articles ! (length cs mod length articles)),
                title_card = title (articles ! (length cs mod length articles)),
                sourceId = id_src src,
                sourceName = name_src src,
                imageUrl = urlToImage (articles ! (length cs mod length articles)),
                url_card = url (articles ! (length cs mod length articles)),
                publishedAt_card = publishedAt (articles ! (length cs mod length articles)),
                side = side_src src \<rparr>]) \<and>
         (\<exists>rest. assembleCards (pre @ src # post) articles =
           Inr (cards @
             \<lparr> articleId = url (articles ! (length cards mod length articles)),
               title_card = title (articles ! (length cards mod length articles)),
               sourceId = id_src src,
               sourceName = name_src src,
               imageUrl = urlToImage (articles ! (length cards mod length articles)),
               url_card = url (articles ! (length cards mod length articles)),
               publishedAt_card = publishedAt (articles ! (length cards mod length articles)),
               side = side_src src \<rparr> # rest))"
proof -
  from assms(1,3) have cards: "cards = emitted articles 0 pre"
    by (simp add: assembleCards_cases)
  then have len: "length cards = length pre"
    by (simp add: length_emitted)
  from assms(2) have "slotCard articles (length pre) src =
      fallbackCard (articles ! (length pre mod length articles)) src"
    by (simp add: slotCard_def)
  with assms(1) cards len have run: "assembleCards (pre @ src # post) articles =
      Inr (cards @ fallbackCard (articles ! (length cards mod length articles)) src #
           emitted articles (Suc (length pre)) post)"
    by (simp add: assembleCards_cases emitted_append)
  have one: "slot articles cs src =
      Inr (cs @ [fallbackCard (articles ! (length cs mod length articles)) src])"
    by (rule slot_fallback [OF assms(2,1)])
  from one run show ?thesis
    unfolding fallbackCard_def by blast
qed

theorem C2_witness:
  "[artB1, artB2] \<noteq> [] \<and> List.find (matches srcA) [artB1, artB2] = None \<and>
   assembleCards [srcB] [artB1, artB2] = Inr [exactCard artB1 srcB] \<and>
   length [exactCard artB1 srcB] mod length [artB1, artB2] = 1 \<and>
   slot [artB1, artB2] [exactCard artB1 srcB] srcA =
     Inr [exactCard artB1 srcB,
          \<lparr> articleId = Some ''http://b/2'', title_card = Some ''second'', sourceId = ''A'',
            sourceName = ''Alpha'', imageUrl = None, url_card = Some ''http://b/2'',
            publishedAt_card = Some ''2024-01-02'', side = ''LEFT'' \<rparr>] \<and>
   (\<exists>rest. assembleCards [srcB, srcA, srcA] [artB1, artB2] =
     Inr (exactCard artB1 srcB #
          \<lparr> articleId = Some ''http://b/2'', title_card = Some ''second'', sourceId = ''A'',
            sourceName = ''Alpha'', imageUrl = None, url_card = Some ''http://b/2'',
            publishedAt_card = Some ''2024-01-02'', side = ''LEFT'' \<rparr> # rest))"
proof -
  have ne: "[artB1, artB2] \<noteq> []" by simp
  have nf: "List.find (matches srcA) [artB1, artB2] = None"
    by (simp add: matches_def srcA_def artB1_def artB2_def)
  have pre: "assembleCards [srcB] [artB1, artB2] = Inr [exactCard artB1 srcB]"
    by (simp add: assembleCards_def slot_def matches_def srcB_def artB1_def)
  have art: "url artB2 = Some ''http://b/2''" "title artB2 = Some ''second''"
    "urlToImage artB2 = None" "publishedAt artB2 = Some ''2024-01-02''"
    by (simp_all add: artB2_def)
  have src: "id_src srcA = ''A''" "name_src srcA = ''Alpha''" "side_src srcA = ''LEFT''"
    by (simp_all add: srcA_def)
  from C2_fallback_index [OF ne nf pre, of "[exactCard artB1 srcB]" "[srcA]"] ne nf pre
  show ?thesis by (simp add: art src)
qed

text \<open>
  C3: when some article matches a source, the card of its slot is built from the first
  such article of the list: its url as \<open>articleId\<close> and as \<open>url\<close>, its title, image URL
  and publication time, with \<open>sourceId\<close>, \<open>sourceName\<close> and \<open>side\<close> of the source.
\<close>

theorem C3_first_match:
  assumes "articles = skipped @ art # others"
    and "\<forall>a \<in> set skipped. \<not> matches src a"
    and "matches src art"
    and "assembleCards pre articles = Inr cards"
  shows "\<exists>rest. assembleCards (pre @ src # post) articles =
           Inr (cards @
                \<lparr> articleId = url art, title_card = title art, sourceId = id_src src,
                  sourceName = name_src src, imageUrl = urlToImage art, url_card = url art,
                  publishedAt_card = publishedAt art, side = side_src src \<rparr> # rest)"
proof -
  from assms(1) have ne: "articles \<noteq> []" by simp
  from assms(1-3) have found: "List.find (matches src) articles = Some art"
    by (simp add: find_first)
  from ne assms(4) have cards: "cards = emitted articles 0 pre"
    by (simp add: assembleCards_cases)
  from found have "slotCard articles (length pre) src = exactCard art src"
    by (simp add: slotCard_def)
  with ne cards have "assembleCards (pre @ src # post) articles =
      Inr (cards @ exactCard art src # emitted articles (Suc (length pre)) post)"
    by (simp add: assembleCards_cases emitted_append)
  then show ?thesis by (auto simp: exactCard_def)
qed

theorem C3_witness:
  "[artN, artB1, artB2] = [artN] @ artB1 # [artB2] \<and>
   \<not> matches srcB artN \<and> matches srcB artB1 \<and> matches srcB artB2 \<and>
   assembleCards [] [artN, artB1, artB2] = Inr [] \<and>
   (\<exists>rest. assembleCards [srcB] [artN, artB1, artB2] =
      Inr (\<lparr> articleId = Some ''http://b/1'', title_card = Some ''first'', sourceId = ''B'',
             sourceName = ''Beta'', imageUrl = None, url_card = Some ''http://b/1'',
             publishedAt_card = Some ''2024-01-01'', side = ''RIGHT'' \<rparr> # rest))"
proof -
  have sp: "[artN, artB1, artB2] = [artN] @ artB1 # [artB2]" by simp
  have sk: "\<forall>a \<in> set [artN]. \<not> matches srcB a"
    by (simp add: matches_def artN_def)
  have m1: "matches srcB artB1" by (simp add: matches_def srcB_def artB1_def)
  have m2: "matches srcB artB2" by (simp add: matches_def srcB_def artB2_def)
  have pre: "assembleCards [] [artN, artB1, artB2] = Inr []"
    by (simp add: assembleCards_def)
  from C3_first_match [OF sp sk m1 pre, of "[]"] sk m1 m2 pre
  show ?thesis by (simp add: srcB_def artB1_def)
qed

text \<open>
  C4: with at least one article the assembly returns exactly one card per source, in the
  order of the sources: the card at position \<open>i\<close> is the one the slot of source \<open>i\<close>
  pushed after the first \<open>i\<close> cards, and it carries that source's identity.
\<close>

theorem C4_one_card_per_source:
  assumes "articles \<noteq> []"
  shows "\<exists>cards. assembleCards sources articles = Inr cards \<and>
           length cards = length sources \<and>
           (\<forall>i < length sources.
              slot articles (take i cards) (sources ! i) = Inr (take (Suc i) cards) \<and>
              sourceId (cards ! i) = id_src (sources ! i) \<and>
              sourceName (cards ! i) = name_src (sources ! i) \<and>
              side (cards ! i) = side_src (sources ! i))"
proof -
  let ?cards = "emitted articles 0 sources"
  have "slot articles (take i ?cards) (sources ! i) = Inr (take (Suc i) ?cards)"
    if "i < length sources" for i
  proof -
    from that have "take (Suc i) ?cards = take i ?cards @ [?cards ! i]"
      by (simp add: take_Suc_conv_app_nth length_emitted)
    moreover from that have "length (take i ?cards) = i"
      by (simp add: length_emitted)
    moreover from that have "?cards ! i = slotCard articles i (sources ! i)"
      by (simp add: emitted_nth)
    ultimately show ?thesis
      using assms by (simp add: slot_nonempty)
  qed
  with assms show ?thesis
    by (simp add: assembleCards_cases length_emitted emitted_nth slotCard_ident)
qed

theorem C4_witness:
  "[artB1] \<noteq> [] \<and>
   (\<exists>cards. assembleCards [srcA, srcB] [artB1] = Inr cards \<and> length cards = 2 \<and>
      sourceId (cards ! 0) = ''A'' \<and> sourceId (cards ! 1) = ''B'' \<and>
      slot [artB1] (take 1 cards) srcB = Inr (take 2 cards))"
proof -
  have ne: "[artB1] \<noteq> []" by simp
  from C4_one_card_per_source [OF ne, of "[srcA, srcB]"]
  obtain cards where run: "assembleCards [srcA, srcB] [artB1] = Inr cards"
    and len: "length cards = length [srcA, srcB]"
    and each: "\<forall>i < length [srcA, srcB].
              slot [artB1] (take i cards) ([srcA, srcB] ! i) = Inr (take (Suc i) cards) \<and>
              sourceId (cards ! i) = id_src ([srcA, srcB] ! i) \<and>
              sourceName (cards ! i) = name_src ([srcA, srcB] ! i) \<and>
              side (cards ! i) = side_src ([srcA, srcB] ! i)"
    by blast
  from each have "sourceId (cards ! 0) = id_src srcA" by simp
  moreover from each have "sourceId (cards ! 1) = id_src srcB \<and>
      slot [artB1] (take 1 cards) srcB = Inr (take (Suc 1) cards)"
    by (auto dest: spec [of _ 1])
  ultimately show ?thesis using run len by (auto simp: srcA_def srcB_def numeral_2_eq_2)
qed


text \<open>
  C5, as stated: the assembly returns no card exactly when there is no article. It fails
  when there is no source: the loop then runs no slot and returns no card although there
  is an article.
\<close>

theorem C5_counterexample:
  "\<not> (assembleCards [] [artB1] = Inr [] \<longleftrightarrow> [artB1] = [])"
  by (simp add: assembleCards_def)

text \<open>
  C5, amended: for at least one source, the assembly returns no card exactly when there is
  no article. (The handler answers an empty selection of sources before it fetches any
  article, so the loop only ever runs on at least one source.)
\<close>

theorem C5_empty_iff_no_articles:
  assumes "sources \<noteq> []"
  shows "(\<exists>cards. assembleCards sources articles = Inr cards) \<and>
         (assembleCards sources articles = Inr [] \<longleftrightarrow> articles = [])"
proof (cases "articles = []")
  case True
  then show ?thesis by (simp add: assembleCards_cases)
next
  case False
  from assms have "emitted articles 0 sources \<noteq> []"
    by (cases sources) simp_all
  with False show ?thesis by (simp add: assembleCards_cases)
qed

theorem C5_witness:
  "[srcA] \<noteq> [] \<and> assembleCards [srcA] [] = Inr [] \<and>
   assembleCards [srcA] [artB1] = Inr [fallbackCard artB1 srcA] \<and>
   assembleCards [srcA] [artB1] \<noteq> Inr []"
proof -
  have ne: "[srcA] \<noteq> []" by simp
  have run: "assembleCards [srcA] [artB1] = Inr [fallbackCard artB1 srcA]"
    by (simp add: assembleCards_def slot_def matches_def js_index_def js_mod_def
          srcA_def artB1_def)
  from C5_empty_iff_no_articles [OF ne, of "[]"]
       C5_empty_iff_no_articles [OF ne, of "[artB1]"] run
  show ?thesis by simp
qed

text \<open>
  C6: the assembly throws nothing, for every list of sources and of articles: it returns
  cards, at most one per source; every slot returns, leaving the cards as they are or
  pushing one; and under the guard \<^verbatim>\<open>articles.length > 0\<close> the remainder of the fallback
  index is a number (the divisor is not zero) below the length of the articles, so the
  indexing finds an article.
\<close>

theorem C6_assembly_total:
  "(\<exists>cards. assembleCards sources articles = Inr cards \<and> length cards \<le> length sources) \<and>
   (\<exists>cards'. slot articles cards src = Inr cards' \<and>
      (cards' = cards \<or> (\<exists>c. cards' = cards @ [c]))) \<and>
   (length articles > 0 \<longrightarrow>
      (\<exists>i. js_mod (length cards) (length articles) = Some i \<and> i < length articles \<and>
           js_index articles (Some i) = Some (articles ! i)))"
proof (intro conjI)
  show "\<exists>cards. assembleCards sources articles = Inr cards \<and> length cards \<le> length sources"
    by (simp add: assembleCards_cases length_emitted)
  show "\<exists>cards'. slot articles cards src = Inr cards' \<and>
      (cards' = cards \<or> (\<exists>c. cards' = cards @ [c]))"
    by (rule slot_total)
  show "length articles > 0 \<longrightarrow>
      (\<exists>i. js_mod (length cards) (length articles) = Some i \<and> i < length articles \<and>
           js_index articles (Some i) = Some (articles ! i))"
    by (simp add: js_mod_def js_index_def)
qed

theorem C6_witness:
  "(\<exists>cards. assembleCards [srcA, srcB] [artN, artB1] = Inr cards \<and> length cards \<le> length [srcA, srcB]) \<and>
   slot [artN, artB1] [] srcA = Inr [fallbackCard artN srcA] \<and>
   slot [] [] srcA = Inr [] \<and>
   length [artN, artB1] > 0 \<and>
   js_mod (length [fallbackCard artN srcA]) (length [artN, artB1]) = Some 1 \<and>
   js_index [artN, artB1] (Some 1) = Some artB1"
proof -
  have s1: "slot [artN, artB1] [] srcA = Inr [fallbackCard artN srcA]"
    by (simp add: slot_def matches_def js_index_def js_mod_def srcA_def artN_def artB1_def)
  have s2: "slot [] [] srcA = Inr []"
    by (simp add: slot_def)
  have m: "js_mod (length [fallbackCard artN srcA]) (length [artN, artB1]) = Some 1"
    by (simp add: js_mod_def)
  from C6_assembly_total [of "[srcA, srcB]" "[artN, artB1]" "[fallbackCard artN srcA]" srcA]
       s1 s2 m
  show ?thesis by (simp add: js_index_def)
qed

text \<open>
  C7: for every query coordinate the selector returns at most as many sources as the feed
  has slots, which is 4, all distinct and all of the catalog, whose identifiers are unique; a
  catalog with fewer entries than slots is returned whole (in the selector's order), an
  empty one gives no source. This holds for every distance metric.
\<close>

theorem C7_selectSources:
  assumes "distinct (map id_src catalog)"
  shows "slotCount = 4 \<and>
         length (selectSources metric catalog x y) \<le> slotCount \<and>
         distinct (map id_src (selectSources metric catalog x y)) \<and>
         distinct (selectSources metric catalog x y) \<and>
         set (selectSources metric catalog x y) \<subseteq> set catalog \<and>
         (length catalog < slotCount \<longrightarrow>
            mset (selectSources metric catalog x y) = mset catalog) \<and>
         (catalog = [] \<longrightarrow> selectSources metric catalog x y = [])"
proof -
  let ?sorted = "sortBy (closer metric x y) catalog"
  from assms have d: "distinct (map id_src (take slotCount ?sorted))"
    by (intro distinct_map_take distinct_map_sortBy)
  then have d': "distinct (take slotCount ?sorted)"
    by (rule distinct_map [THEN iffD1, THEN conjunct1])
  have sub: "set (take slotCount ?sorted) \<subseteq> set catalog"
    using set_take_subset [of slotCount ?sorted] by (simp add: set_sortBy)
  have all: "length catalog < slotCount \<longrightarrow> mset (take slotCount ?sorted) = mset catalog"
    by (simp add: length_sortBy mset_sortBy)
  from d d' sub all show ?thesis
    by (simp add: selectSources_def slotCount_def)
qed

theorem C7_witness:
  "distinct (map id_src [srcB, srcA]) \<and> length [srcB, srcA] < slotCount \<and>
   selectSources euclid2 [srcB, srcA] 1 1 = [srcA, srcB] \<and>
   mset (selectSources euclid2 [srcB, srcA] 1 1) = mset [srcB, srcA] \<and>
   distinct (map id_src [] :: string list) \<and> selectSources euclid2 [] 1 1 = []"
proof -
  have d: "distinct (map id_src [srcB, srcA])"
    by (simp add: srcA_def srcB_def)
  have d0: "distinct (map id_src [] :: string list)" by simp
  from C7_selectSources [OF d, of euclid2 1 1] C7_selectSources [OF d0, of euclid2 1 1]
       d select_AB
  show ?thesis by simp
qed

text \<open>
  C8: the feed handler answers a request whose \<^verbatim>\<open>x\<close> or \<^verbatim>\<open>y\<close> is missing or does not parse
  as a number (\<^verbatim>\<open>parseFloat\<close> gives NaN) with status 400, having taken no step: no cache
  access, no source selection, no card assembly. Whenever the source selection is called,
  neither coordinate is NaN.
\<close>

theorem C8_rejects_before_core:
  "(qx = None \<or> qy = None \<or>
    isNaN (parseFloat (parseString env) qx) \<or> isNaN (parseFloat (parseString env) qy) \<longrightarrow>
      feed env qx qy = (Response 400 (ErrorBody ''x and y required''), [])) \<and>
   (\<forall>a b. PickSources a b \<in> set (snd (feed env qx qy)) \<longrightarrow> \<not> isNaN a \<and> \<not> isNaN b)"
proof (intro conjI impI allI)
  assume "qx = None \<or> qy = None \<or>
    isNaN (parseFloat (parseString env) qx) \<or> isNaN (parseFloat (parseString env) qy)"
  then have "isNaN (parseFloat (parseString env) qx) \<or> isNaN (parseFloat (parseString env) qy)"
    by (auto simp: parseFloat_missing isNaN_def)
  then show "feed env qx qy = (Response 400 (ErrorBody ''x and y required''), [])"
    by (rule feed_rejects)
next
  fix a b
  assume "PickSources a b \<in> set (snd (feed env qx qy))"
  then show "\<not> isNaN a" by (simp add: feed_PickSources)
next
  fix a b
  assume "PickSources a b \<in> set (snd (feed env qx qy))"
  then show "\<not> isNaN b" by (simp add: feed_PickSources)
qed

theorem C8_witness:
  "feed env0 None (Some ''1'') = (Response 400 (ErrorBody ''x and y required''), []) \<and>
   isNaN (parseFloat (parseString env0) (Some ''abc'')) \<and>
   feed env0 (Some ''1'') (Some ''abc'') = (Response 400 (ErrorBody ''x and y required''), []) \<and>
   PickSources (Finite 1) (Finite 1) \<in> set (snd (feed env0 (Some ''1'') (Some ''1''))) \<and>
   \<not> isNaN (Finite 1)"
proof -
  have nan: "isNaN (parseFloat (parseString env0) (Some ''abc''))"
    by (simp add: parseFloat_def env0_def isNaN_def)
  have ps: "PickSources (Finite 1) (Finite 1) \<in> set (snd (feed env0 (Some ''1'') (Some ''1'')))"
    by (simp add: feed_env0)
  from C8_rejects_before_core [of None "Some ''1''" env0]
       C8_rejects_before_core [of "Some ''1''" "Some ''abc''" env0]
       C8_rejects_before_core [of "Some ''1''" "Some ''1''" env0] nan ps
  show ?thesis by blast
qed

text \<open>
  C9: on every card the assembly emits, \<open>articleId\<close> and \<open>url\<close> are equal: both are the
  url of the article the card was built from, in the exact-match branch and in the
  fallback branch. The assembly always returns cards, and each of them has the two fields
  equal.
\<close>

theorem C9_articleId_is_url:
  "\<exists>cards. assembleCards sources articles = Inr cards \<and>
           (\<forall>c \<in> set cards. articleId c = url_card c)"
  by (auto simp: assembleCards_cases dest: emitted_url)

theorem C9_witness:
  "assembleCards [srcA, srcB] [artB1] =
     Inr [fallbackCard artB1 srcA, exactCard artB1 srcB] \<and>
   articleId (fallbackCard artB1 srcA) = Some ''http://b/1'' \<and>
   url_card (fallbackCard artB1 srcA) = Some ''http://b/1'' \<and>
   articleId (exactCard artB1 srcB) = Some ''http://b/1'' \<and>
   url_card (exactCard artB1 srcB) = Some ''http://b/1''"
proof -
  have run: "assembleCards [srcA, srcB] [artB1] =
      Inr [fallbackCard artB1 srcA, exactCard artB1 srcB]"
    by (simp add: assembleCards_def slot_def matches_def js_index_def js_mod_def
          srcA_def srcB_def artB1_def)
  have urls: "url_card (fallbackCard artB1 srcA) = Some ''http://b/1'' \<and>
      url_card (exactCard artB1 srcB) = Some ''http://b/1''"
    by (simp add: fallbackCard_def exactCard_def artB1_def)
  from C9_articleId_is_url [of "[srcA, srcB]" "[artB1]"] run urls
  show ?thesis by simp
qed

text \<open>
  C10: an article without \<^verbatim>\<open>source\<close> matches no source and is never what the search for
  an exact match finds, yet it is used as a fallback: alone in the articles, it is the
  article of the card of any source.
\<close>

theorem C10_absent_source:
  assumes "source a = None"
  shows "\<not> matches src a \<and>
         List.find (matches src) articles \<noteq> Some a \<and>
         assembleCards [src] [a] = Inr [fallbackCard a src]"
proof -
  from assms have nm: "\<not> matches src a" by (simp add: matches_def)
  then have "List.find (matches src) [a] = None" by simp
  then have "slot [a] [] src = Inr ([] @ [fallbackCard ([a] ! (length ([]::card list) mod length [a])) src])"
    by (rule slot_fallback) simp
  then have "assembleCards [src] [a] = Inr [fallbackCard a src]"
    by (simp add: assembleCards_def)
  with nm find_absent_source [OF assms] show ?thesis by simp
qed

theorem C10_witness:
  "source artN = None \<and> \<not> matches srcA artN \<and>
   List.find (matches srcA) [artB1, artN] \<noteq> Some artN \<and>
   assembleCards [srcA] [artN] =
     Inr [\<lparr> articleId = Some ''http://n/1'', title_card = Some ''orphan'', sourceId = ''A'',
            sourceName = ''Alpha'', imageUrl = None, url_card = Some ''http://n/1'',
            publishedAt_card = None, side = ''LEFT'' \<rparr>]"
proof -
  have ns: "source artN = None" by (simp add: artN_def)
  from C10_absent_source [OF ns, of srcA "[artB1, artN]"] ns
  show ?thesis by (simp add: fallbackCard_def srcA_def artN_def)
qed

end
